theory Spec2Isabelle
  imports Complex_Main
begin

section \<open>The items budgeting store of \<open>app.py\<close>\<close>

text \<open>
  The program keeps two SQLite tables and reaches them through nine small functions.
  The tables are modelled as lists of rows in rowid order, a connection as a working
  copy of the tables together with the connection's \<open>foreign_keys\<close> pragma, and every
  function as a function from the persisted tables to the exception it raised (if any)
  and the tables persisted afterwards.
\<close>

subsection \<open>Rows, tables, exceptions\<close>

record category =
  cat_id :: int
  cat_name :: string
  cat_items_per_period :: int
  cat_unit_value :: real
  cat_unit_label :: string

record click =
  click_id :: int
  click_category_id :: int
  click_ts :: string
  click_reason :: string
  click_amount :: real

record store =
  categories :: "category list"
  clicks :: "click list"

datatype error = IntegrityError | ValueError

text \<open>
  A connection: \<open>sqlite3.connect\<close> opens the file with SQLite's defaults, under which
  foreign key clauses are parsed and not enforced. No statement of the program issues
  \<open>PRAGMA foreign_keys = ON\<close>. Changes made through a connection are persisted by
  \<open>commit\<close>; a connection dropped without it leaves the file as it was.
\<close>

record conn =
  work :: store
  foreign_keys :: bool

definition get_conn :: "store \<Rightarrow> conn" where
  "get_conn s = \<lparr>work = s, foreign_keys = False\<rparr>"

definition commit :: "conn \<Rightarrow> store" where
  "commit c = work c"

text \<open>
  The value SQLite gives an \<open>INTEGER PRIMARY KEY\<close> column left out of an INSERT:
  1 in an empty table, otherwise one more than the largest id present
  (ids stay far below \<open>2^63 - 1\<close>, where SQLite would pick an unused id at random).
\<close>

fun next_rowid :: "int list \<Rightarrow> int" where
  "next_rowid [] = 1"
| "next_rowid (x # xs) = fold max xs x + 1"

text \<open>\<open>INSERT INTO categories (name, items_per_period, unit_value, unit_label)\<close>:
  the UNIQUE constraint on \<open>name\<close> (binary collation, so case-sensitive) raises
  \<open>sqlite3.IntegrityError\<close> and the statement writes nothing.\<close>

definition insert_category :: "conn \<Rightarrow> string \<Rightarrow> int \<Rightarrow> real \<Rightarrow> string \<Rightarrow> error + conn" where
  "insert_category c name ip uv ul =
     (let s = work c in
      if name \<in> set (map cat_name (categories s)) then Inl IntegrityError
      else Inr (c\<lparr>work := s\<lparr>categories := categories s @
             [\<lparr>cat_id = next_rowid (map cat_id (categories s)), cat_name = name,
               cat_items_per_period = ip, cat_unit_value = uv, cat_unit_label = ul\<rparr>]\<rparr>\<rparr>))"

text \<open>\<open>INSERT INTO clicks (category_id, ts, reason, amount)\<close>: the foreign key on
  \<open>category_id\<close> is checked only on a connection that has switched the pragma on.\<close>

definition insert_click :: "conn \<Rightarrow> int \<Rightarrow> string \<Rightarrow> string \<Rightarrow> real \<Rightarrow> error + conn" where
  "insert_click c cid t r a =
     (let s = work c in
      if foreign_keys c \<and> cid \<notin> set (map cat_id (categories s)) then Inl IntegrityError
      else Inr (c\<lparr>work := s\<lparr>clicks := clicks s @
             [\<lparr>click_id = next_rowid (map click_id (clicks s)), click_category_id = cid,
               click_ts = t, click_reason = r, click_amount = a\<rparr>]\<rparr>\<rparr>))"

subsection \<open>Dates and their ISO format\<close>

record date =
  d_year :: int
  d_month :: int
  d_day :: int

record datetime =
  dt_year :: int
  dt_month :: int
  dt_day :: int
  dt_hour :: int
  dt_minute :: int
  dt_second :: int
  dt_microsecond :: int

definition is_leap :: "int \<Rightarrow> bool" where
  "is_leap y = (y mod 4 = 0 \<and> (y mod 100 \<noteq> 0 \<or> y mod 400 = 0))"

definition days_in_month :: "int \<Rightarrow> int \<Rightarrow> int" where
  "days_in_month y m =
     (if m = 2 then (if is_leap y then 29 else 28)
      else if m = 4 \<or> m = 6 \<or> m = 9 \<or> m = 11 then 30 else 31)"

text \<open>The constructor \<open>date(year, month, day)\<close>, which raises \<open>ValueError\<close> outside
  \<open>MINYEAR = 1\<close> .. \<open>MAXYEAR = 9999\<close>, months 1..12 and the days of the month.\<close>

definition mk_date :: "int \<Rightarrow> int \<Rightarrow> int \<Rightarrow> error + date" where
  "mk_date y m d =
     (if 1 \<le> y \<and> y \<le> 9999 \<and> 1 \<le> m \<and> m \<le> 12 \<and> 1 \<le> d \<and> d \<le> days_in_month y m
      then Inr \<lparr>d_year = y, d_month = m, d_day = d\<rparr> else Inl ValueError)"

definition valid_datetime :: "datetime \<Rightarrow> bool" where
  "valid_datetime t =
     (1 \<le> dt_year t \<and> dt_year t \<le> 9999 \<and> 1 \<le> dt_month t \<and> dt_month t \<le> 12 \<and>
      1 \<le> dt_day t \<and> dt_day t \<le> days_in_month (dt_year t) (dt_month t) \<and>
      0 \<le> dt_hour t \<and> dt_hour t < 24 \<and> 0 \<le> dt_minute t \<and> dt_minute t < 60 \<and>
      0 \<le> dt_second t \<and> dt_second t < 60 \<and>
      0 \<le> dt_microsecond t \<and> dt_microsecond t < 1000000)"

definition digit :: "nat \<Rightarrow> char" where
  "digit d = char_of (48 + d)"

text \<open>\<open>"%0wd" % n\<close> for \<open>0 \<le> n < 10^w\<close>.\<close>

fun pad :: "nat \<Rightarrow> nat \<Rightarrow> string" where
  "pad 0 n = []"
| "pad (Suc w) n = pad w (n div 10) @ [digit (n mod 10)]"

definition isoformat_ymd :: "int \<Rightarrow> int \<Rightarrow> int \<Rightarrow> string" where
  "isoformat_ymd y m d =
     pad 4 (nat y) @ ''-'' @ pad 2 (nat m) @ ''-'' @ pad 2 (nat d)"

definition isoformat_date :: "date \<Rightarrow> string" where
  "isoformat_date d = isoformat_ymd (d_year d) (d_month d) (d_day d)"

text \<open>\<open>datetime.isoformat()\<close>: the microseconds are printed only when they are not 0.\<close>

definition isoformat_datetime :: "datetime \<Rightarrow> string" where
  "isoformat_datetime t =
     isoformat_ymd (dt_year t) (dt_month t) (dt_day t) @
     (''T'' @ pad 2 (nat (dt_hour t)) @ '':'' @ pad 2 (nat (dt_minute t)) @ '':'' @
      pad 2 (nat (dt_second t)) @
      (if dt_microsecond t = 0 then [] else ''.'' @ pad 6 (nat (dt_microsecond t))))"

text \<open>SQLite compares TEXT values bytewise (\<open>memcmp\<close>), a proper prefix being smaller.\<close>

fun text_lt :: "string \<Rightarrow> string \<Rightarrow> bool" where
  "text_lt [] [] = False"
| "text_lt [] (y # ys) = True"
| "text_lt (x # xs) [] = False"
| "text_lt (x # xs) (y # ys) =
     (if (of_char x :: nat) < of_char y then True
      else if (of_char y :: nat) < of_char x then False
      else text_lt xs ys)"

definition text_ge :: "string \<Rightarrow> string \<Rightarrow> bool" where
  "text_ge a b = (\<not> text_lt a b)"

subsection \<open>The clock\<close>

text \<open>What the program reads from its surroundings: \<open>datetime.utcnow()\<close>, the current
  time in UTC, and \<open>date.today()\<close>, the current date in the machine's local time zone.\<close>

record env =
  utcnow :: datetime
  today :: date

subsection \<open>The database helpers\<close>

text \<open>\<open>init_db\<close>: both tables are created when the file does not have them.
  \<open>None\<close> is the absent file.\<close>

definition init_db :: "store option \<Rightarrow> store" where
  "init_db f = (case f of None \<Rightarrow> \<lparr>categories = [], clicks = []\<rparr> | Some s \<Rightarrow> s)"

definition defaults :: "(string \<times> int \<times> real \<times> string) list" where
  "defaults = [(''Burgers'', 3, 16, ''burger''),
               (''Equipement'', 3, 60, ''equip''),
               (''Bonbons'', 20, 0.7, ''bonbon'')]"

text \<open>The loop of \<open>add_default_categories\<close>: an INSERT that raises
  \<open>IntegrityError\<close> is passed over and the loop goes on.\<close>

fun insert_defaults :: "conn \<Rightarrow> (string \<times> int \<times> real \<times> string) list \<Rightarrow> error + conn" where
  "insert_defaults c [] = Inr c"
| "insert_defaults c ((name, ip, uv, ul) # ds) =
     (case insert_category c name ip uv ul of
        Inl IntegrityError \<Rightarrow> insert_defaults c ds
      | Inl ValueError \<Rightarrow> Inl ValueError
      | Inr c' \<Rightarrow> insert_defaults c' ds)"

definition add_default_categories :: "store \<Rightarrow> error option \<times> store" where
  "add_default_categories s =
     (case insert_defaults (get_conn s) defaults of
        Inl e \<Rightarrow> (Some e, s)
      | Inr c \<Rightarrow> (None, commit c))"

definition list_categories :: "store \<Rightarrow> category list" where
  "list_categories s = sort_key cat_id (categories (work (get_conn s)))"

definition create_category :: "store \<Rightarrow> string \<Rightarrow> int \<Rightarrow> real \<Rightarrow> string \<Rightarrow> error option \<times> store" where
  "create_category s name items_per_period unit_value unit_label =
     (case insert_category (get_conn s) name items_per_period unit_value unit_label of
        Inl e \<Rightarrow> (Some e, s)
      | Inr c \<Rightarrow> (None, commit c))"

definition record_click :: "env \<Rightarrow> store \<Rightarrow> int \<Rightarrow> string \<Rightarrow> real \<Rightarrow> error option \<times> store" where
  "record_click e s category_id reason amount =
     (case insert_click (get_conn s) category_id (isoformat_datetime (utcnow e)) reason amount of
        Inl err \<Rightarrow> (Some err, s)
      | Inr c \<Rightarrow> (None, commit c))"

text \<open>\<open>SELECT id FROM clicks ORDER BY id DESC LIMIT 1\<close> and \<open>fetchone\<close>.\<close>

fun last_click_id :: "click list \<Rightarrow> int option" where
  "last_click_id [] = None"
| "last_click_id (c # cs) = Some (fold max (map click_id cs) (click_id c))"

definition undo_last_click :: "store \<Rightarrow> error option \<times> store" where
  "undo_last_click s =
     (let c = get_conn s in
      case last_click_id (clicks (work c)) of
        None \<Rightarrow> (None, commit c)
      | Some i \<Rightarrow>
          (None, commit (c\<lparr>work := (work c)\<lparr>clicks := filter (\<lambda>k. click_id k \<noteq> i) (clicks (work c))\<rparr>\<rparr>)))"

text \<open>The WHERE clause of \<open>clicks_this_period\<close>.\<close>

definition in_period :: "int \<Rightarrow> string \<Rightarrow> string \<Rightarrow> click \<Rightarrow> bool" where
  "in_period category_id start next_month k =
     (click_category_id k = category_id \<and> text_ge (click_ts k) start \<and> text_lt (click_ts k) next_month)"

definition clicks_this_period :: "env \<Rightarrow> store \<Rightarrow> int \<Rightarrow> int option \<Rightarrow> int option \<Rightarrow> error + int" where
  "clicks_this_period e s category_id year month =
     (let (y, m) = (case (year, month) of
                      (Some y, Some m) \<Rightarrow> (y, m)
                    | _ \<Rightarrow> (d_year (today e), d_month (today e)));
          c = get_conn s
      in case mk_date y m 1 of
           Inl err \<Rightarrow> Inl err
         | Inr start \<Rightarrow>
            (case (if m = 12 then mk_date (y + 1) 1 1 else mk_date y (m + 1) 1) of
               Inl err \<Rightarrow> Inl err
             | Inr next_month \<Rightarrow>
                 Inr (int (length (filter
                   (in_period category_id (isoformat_date start) (isoformat_date next_month))
                   (clicks (work c)))))))"

subsection \<open>The parts of the page that write or derive\<close>

text \<open>
  Text is held as its UTF-8 bytes, the form in which SQLite stores and compares it.
  Python's \<open>str.strip()\<close> removes the characters for which \<open>str.isspace\<close>
  holds. These are their encodings: U+0009 to U+000D, U+001C to U+0020, U+0085, U+00A0,
  U+1680, U+2000 to U+200A, U+2028, U+2029, U+202F, U+205F and U+3000.
\<close>

definition whitespace :: "string list" where
  "whitespace =
     [[CHR 0x09], [CHR 0x0A], [CHR 0x0B], [CHR 0x0C], [CHR 0x0D],
      [CHR 0x1C], [CHR 0x1D], [CHR 0x1E], [CHR 0x1F], [CHR 0x20],
      [CHR 0xC2, CHR 0x85], [CHR 0xC2, CHR 0xA0],
      [CHR 0xE1, CHR 0x9A, CHR 0x80],
      [CHR 0xE2, CHR 0x80, CHR 0x80], [CHR 0xE2, CHR 0x80, CHR 0x81],
      [CHR 0xE2, CHR 0x80, CHR 0x82], [CHR 0xE2, CHR 0x80, CHR 0x83],
      [CHR 0xE2, CHR 0x80, CHR 0x84], [CHR 0xE2, CHR 0x80, CHR 0x85],
      [CHR 0xE2, CHR 0x80, CHR 0x86], [CHR 0xE2, CHR 0x80, CHR 0x87],
      [CHR 0xE2, CHR 0x80, CHR 0x88], [CHR 0xE2, CHR 0x80, CHR 0x89],
      [CHR 0xE2, CHR 0x80, CHR 0x8A],
      [CHR 0xE2, CHR 0x80, CHR 0xA8], [CHR 0xE2, CHR 0x80, CHR 0xA9],
      [CHR 0xE2, CHR 0x80, CHR 0xAF], [CHR 0xE2, CHR 0x81, CHR 0x9F],
      [CHR 0xE3, CHR 0x80, CHR 0x80]]"

text \<open>The number of bytes of the character of the table that the text starts with,
  0 when it starts with none. No encoding is a prefix of another.\<close>

definition ws_len :: "string list \<Rightarrow> string \<Rightarrow> nat" where
  "ws_len tab s =
     (case find (\<lambda>w. take (length w) s = w) tab of None \<Rightarrow> 0 | Some w \<Rightarrow> length w)"

text \<open>Dropping the leading characters of the table; the number counts the bytes
  still to drop of the character being removed.\<close>

fun skip_ws :: "string list \<Rightarrow> nat \<Rightarrow> string \<Rightarrow> string" where
  "skip_ws tab k [] = []"
| "skip_ws tab (Suc k) (c # cs) = skip_ws tab k cs"
| "skip_ws tab 0 (c # cs) =
     (case ws_len tab (c # cs) of 0 \<Rightarrow> c # cs | Suc k \<Rightarrow> skip_ws tab k cs)"

definition lstrip :: "string \<Rightarrow> string" where
  "lstrip s = skip_ws whitespace 0 s"

text \<open>From the end, the bytes of a character come in reverse. A lead byte is never a
  continuation byte, so in UTF-8 text a match at the end is a whole character.\<close>

definition rstrip :: "string \<Rightarrow> string" where
  "rstrip s = rev (skip_ws (map rev whitespace) 0 (rev s))"

definition strip :: "string \<Rightarrow> string" where
  "strip s = rstrip (lstrip s)"

text \<open>The handler of the form \<open>new_cat\<close>, once its button is pressed:
  \<open>if ... and name.strip(): create_category(name.strip(), ..., unit_label.strip() or "item")\<close>.\<close>

definition submit_new_cat :: "store \<Rightarrow> string \<Rightarrow> int \<Rightarrow> real \<Rightarrow> string \<Rightarrow> error option \<times> store" where
  "submit_new_cat s name items_per_period unit_value unit_label =
     (if strip name \<noteq> []
      then create_category s (strip name) items_per_period unit_value
             (if strip unit_label \<noteq> [] then strip unit_label else ''item'')
      else (None, s))"

text \<open>The reset button's body: \<open>os.remove(DB_PATH)\<close>, then \<open>init_db()\<close>.\<close>

definition reset_all :: "store \<Rightarrow> store" where
  "reset_all s = init_db None"

text \<open>One row of the table "Vue par periode".\<close>

record summary_row =
  sum_category :: string
  sum_items_per_period :: int
  sum_used :: int
  sum_remaining :: int
  sum_unit_value :: real
  sum_unit_label :: string

fun summary :: "env \<Rightarrow> store \<Rightarrow> category list \<Rightarrow> error + summary_row list" where
  "summary e s [] = Inr []"
| "summary e s (c # cats) =
     (case clicks_this_period e s (cat_id c) None None of
        Inl err \<Rightarrow> Inl err
      | Inr used \<Rightarrow>
          (let remaining = max 0 (cat_items_per_period c - used) in
           case summary e s cats of
             Inl err \<Rightarrow> Inl err
           | Inr rows \<Rightarrow>
               Inr (\<lparr>sum_category = cat_name c, sum_items_per_period = cat_items_per_period c,
                     sum_used = used, sum_remaining = remaining,
                     sum_unit_value = cat_unit_value c, sum_unit_label = cat_unit_label c\<rparr> # rows)))"

text \<open>What the constraints PRIMARY KEY and UNIQUE keep true of every table.\<close>

definition store_ok :: "store \<Rightarrow> bool" where
  "store_ok s = (distinct (map cat_id (categories s)) \<and> distinct (map cat_name (categories s)) \<and>
                 distinct (map click_id (clicks s)))"

text \<open>The finite values of a Python float, an IEEE 754 double: an integer of less than
  54 bits times a power of two between \<open>2^-1074\<close> and \<open>2^971\<close>. The columns
  \<open>unit_value\<close> and \<open>amount\<close> hold such numbers; they are written as reals.\<close>

definition is_double :: "real \<Rightarrow> bool" where
  "is_double x =
     (\<exists>m e :: int. \<bar>m\<bar> < 2 ^ 53 \<and> - 1074 \<le> e \<and> e \<le> 971 \<and> x = of_int m * 2 powr of_int e)"

subsection \<open>Sample data\<close>

text \<open>The last second of 2023 and the first instant of 2024, and a store holding one
  click of category 1 made at a given time.\<close>

definition dec31 :: datetime where
  "dec31 = \<lparr>dt_year = 2023, dt_month = 12, dt_day = 31, dt_hour = 23, dt_minute = 59,
            dt_second = 59, dt_microsecond = 0\<rparr>"

definition jan1 :: datetime where
  "jan1 = \<lparr>dt_year = 2024, dt_month = 1, dt_day = 1, dt_hour = 0, dt_minute = 0,
            dt_second = 0, dt_microsecond = 0\<rparr>"

definition one_click :: "datetime \<Rightarrow> store" where
  "one_click t = \<lparr>categories = [], clicks = [\<lparr>click_id = 1, click_category_id = 1,
       click_ts = isoformat_datetime t, click_reason = ''faim'', click_amount = 1\<rparr>]\<rparr>"

text \<open>The store right after the first start of the program: the three starter
  categories and no click.\<close>

definition seeded :: store where
  "seeded = \<lparr>categories =
      [\<lparr>cat_id = 1, cat_name = ''Burgers'', cat_items_per_period = 3, cat_unit_value = 16,
        cat_unit_label = ''burger''\<rparr>,
       \<lparr>cat_id = 2, cat_name = ''Equipement'', cat_items_per_period = 3, cat_unit_value = 60,
        cat_unit_label = ''equip''\<rparr>,
       \<lparr>cat_id = 3, cat_name = ''Bonbons'', cat_items_per_period = 20, cat_unit_value = 0.7,
        cat_unit_label = ''bonbon''\<rparr>],
     clicks = []\<rparr>"

text \<open>A machine one hour ahead of UTC, half an hour before the end of January 2024 in
  UTC: its local date is already 1 February.\<close>

definition late_january :: env where
  "late_january =
     \<lparr>utcnow = \<lparr>dt_year = 2024, dt_month = 1, dt_day = 31, dt_hour = 23, dt_minute = 30,
                 dt_second = 0, dt_microsecond = 0\<rparr>,
      today = \<lparr>d_year = 2024, d_month = 2, d_day = 1\<rparr>\<rparr>"

text \<open>A machine on UTC in the middle of January 2024.\<close>

definition mid_january :: env where
  "mid_january =
     \<lparr>utcnow = \<lparr>dt_year = 2024, dt_month = 1, dt_day = 15, dt_hour = 12, dt_minute = 0,
                 dt_second = 0, dt_microsecond = 250000\<rparr>,
      today = \<lparr>d_year = 2024, d_month = 1, d_day = 15\<rparr>\<rparr>"

text \<open>Clicks numbered \<open>i\<close>, \<open>i - 1\<close>, .. of one category, all made at the same time.\<close>

fun clicks_at :: "string \<Rightarrow> int \<Rightarrow> nat \<Rightarrow> click list" where
  "clicks_at t cid 0 = []"
| "clicks_at t cid (Suc n) =
     clicks_at t cid n @ [\<lparr>click_id = int (Suc n), click_category_id = cid, click_ts = t,
       click_reason = ''faim'', click_amount = 1\<rparr>]"

text \<open>The seeded store after a click on category 3 and then one on category 1.\<close>

definition two_clicks :: store where
  "two_clicks = seeded\<lparr>clicks :=
      [\<lparr>click_id = 1, click_category_id = 3, click_ts = ''2024-01-15T12:00:00.250000'',
        click_reason = ''envie'', click_amount = 1\<rparr>,
       \<lparr>click_id = 2, click_category_id = 1, click_ts = ''2024-01-15T12:00:01.500000'',
        click_reason = ''faim'', click_amount = 2\<rparr>]\<rparr>"

text \<open>One category with a quota of 3 and five clicks on it, all on 15 January 2024.\<close>

definition over_quota :: store where
  "over_quota =
     \<lparr>categories = [\<lparr>cat_id = 1, cat_name = ''Burgers'', cat_items_per_period = 3,
        cat_unit_value = 16, cat_unit_label = ''burger''\<rparr>],
      clicks = clicks_at ''2024-01-15T12:00:00.250000'' 1 5\<rparr>"

text \<open>Two texts a user can type into the form: a no-break space followed by a space,
  and "Pizza" between a space, a no-break space, an em space and a tab.\<close>

definition blank_name :: string where
  "blank_name = [CHR 0xC2, CHR 0xA0, CHR 0x20]"

definition padded_pizza :: string where
  "padded_pizza =
     [CHR 0x20, CHR 0xC2, CHR 0xA0] @ ''Pizza'' @ [CHR 0xE2, CHR 0x80, CHR 0x83, CHR 0x09]"

section \<open>Properties\<close>

subsection \<open>Clicks never touch the categories\<close>

text \<open>
  C10. \<open>record_click\<close> and \<open>undo_last_click\<close> leave the categories table as it is:
  \<open>list_categories\<close> gives the same rows before and after either call, from any state
  and for any arguments.
\<close>

theorem clicks_ops_keep_categories:
  "list_categories (snd (record_click e s category_id reason amount)) = list_categories s \<and>
   list_categories (snd (undo_last_click s)) = list_categories s"
  by (simp add: list_categories_def record_click_def undo_last_click_def insert_click_def
      get_conn_def commit_def Let_def split: option.splits)

subsection \<open>Text order on padded numbers\<close>

lemma text_lt_append:
  "length a = length b \<Longrightarrow> text_lt (a @ r) (b @ s) = (text_lt a b \<or> (a = b \<and> text_lt r s))"
proof (induction a b rule: list_induct2)
  case Nil
  then show ?case by simp
next
  case (Cons x xs y ys)
  then show ?case by (auto simp: of_char_eq_iff)
qed

lemma length_pad: "length (pad w n) = w"
  by (induction w arbitrary: n) auto

lemma of_char_digit: "a < 10 \<Longrightarrow> (of_char (digit a) :: nat) = 48 + a"
  by (simp add: digit_def take_bit_nat_eq_self)

lemma digit_lt: "a < 10 \<Longrightarrow> b < 10 \<Longrightarrow> text_lt [digit a] [digit b] = (a < b)"
  by (simp add: of_char_digit)

lemma digit_eq: "a < 10 \<Longrightarrow> b < 10 \<Longrightarrow> (digit a = digit b) = (a = b)"
proof
  assume "a < 10" "b < 10" "digit a = digit b"
  then have "(of_char (digit a) :: nat) = of_char (digit b)" by simp
  with \<open>a < 10\<close> \<open>b < 10\<close> show "a = b" by (simp add: of_char_digit)
qed simp

lemma pad_eq: "m < 10 ^ w \<Longrightarrow> n < 10 ^ w \<Longrightarrow> (pad w m = pad w n) = (m = n)"
proof (induction w arbitrary: m n)
  case 0
  then show ?case by simp
next
  case (Suc w)
  have "m div 10 < 10 ^ w" "n div 10 < 10 ^ w" using Suc.prems by (simp_all add: less_mult_imp_div_less mult.commute)
  then have "(pad w (m div 10) = pad w (n div 10)) = (m div 10 = n div 10)" by (rule Suc.IH)
  moreover have "(digit (m mod 10) = digit (n mod 10)) = (m mod 10 = n mod 10)" by (simp add: digit_eq)
  moreover have "(m div 10 = n div 10 \<and> m mod 10 = n mod 10) = (m = n)" by (metis div_mult_mod_eq)
  ultimately show ?case by simp
qed

lemma div_mod_lex:
  "((m::nat) div 10 < n div 10 \<or> (m div 10 = n div 10 \<and> m mod 10 < n mod 10)) = (m < n)"
proof -
  define a b c d where "a = m div 10" and "b = m mod 10" and "c = n div 10" and "d = n mod 10"
  have "m = 10 * a + b" "n = 10 * c + d" "b < 10" "d < 10"
    by (simp_all add: a_def b_def c_def d_def)
  then have "(a < c \<or> (a = c \<and> b < d)) = (m < n)" by arith
  then show ?thesis by (simp only: a_def b_def c_def d_def)
qed

lemma pad_lt: "m < 10 ^ w \<Longrightarrow> n < 10 ^ w \<Longrightarrow> text_lt (pad w m) (pad w n) = (m < n)"
proof (induction w arbitrary: m n)
  case 0
  then show ?case by simp
next
  case (Suc w)
  have b: "m div 10 < 10 ^ w" "n div 10 < 10 ^ w" using Suc.prems by (simp_all add: less_mult_imp_div_less mult.commute)
  have 1: "text_lt (pad w (m div 10)) (pad w (n div 10)) = (m div 10 < n div 10)" using b by (rule Suc.IH)
  have 2: "(pad w (m div 10) = pad w (n div 10)) = (m div 10 = n div 10)" using b by (rule pad_eq)
  have 3: "text_lt [digit (m mod 10)] [digit (n mod 10)] = (m mod 10 < n mod 10)" by (rule digit_lt) simp_all
  have 4: "(m div 10 < n div 10 \<or> (m div 10 = n div 10 \<and> m mod 10 < n mod 10)) = (m < n)"
    by (rule div_mod_lex)
  have "text_lt (pad (Suc w) m) (pad (Suc w) n) =
        (text_lt (pad w (m div 10)) (pad w (n div 10)) \<or>
         (pad w (m div 10) = pad w (n div 10) \<and> text_lt [digit (m mod 10)] [digit (n mod 10)]))"
    by (simp add: text_lt_append length_pad del: text_lt.simps)
  then show ?case by (simp only: 1 2 3 4)
qed

lemma text_lt_Nil: "text_lt r [] = False"
  by (cases r) simp_all

lemma ymd_lt:
  assumes "0 \<le> Y" "Y < 10000" "0 \<le> y" "y < 10000"
    and "0 \<le> M" "M < 100" "0 \<le> m" "m < 100" "1 \<le> D" "D < 100"
  shows "text_lt (isoformat_ymd Y M D @ r) (isoformat_ymd y m 1) = (Y < y \<or> (Y = y \<and> M < m))"
proof -
  have Yy: "text_lt (pad 4 (nat Y)) (pad 4 (nat y)) = (Y < y)" "(pad 4 (nat Y) = pad 4 (nat y)) = (Y = y)"
    using assms by (auto simp add: pad_lt pad_eq)
  have Mm: "text_lt (pad 2 (nat M)) (pad 2 (nat m)) = (M < m)" "(pad 2 (nat M) = pad 2 (nat m)) = (M = m)"
    using assms by (auto simp add: pad_lt pad_eq)
  have D1: "text_lt (pad 2 (nat D)) (pad 2 (Suc 0)) = False"
    using assms by (simp add: pad_lt)
  have "text_lt (pad 2 (nat D) @ r) (pad 2 (Suc 0) @ []) = False"
    by (simp only: text_lt_append length_pad D1 text_lt_Nil) simp
  then have d: "text_lt (pad 2 (nat D) @ r) (pad 2 (Suc 0)) = False" by simp
  have "text_lt (pad 2 (nat M) @ (CHR ''-'' # pad 2 (nat D) @ r)) (pad 2 (nat m) @ (CHR ''-'' # pad 2 (Suc 0)))
        = (M < m)"
    by (simp add: text_lt_append length_pad Mm d del: pad.simps)
  then have "text_lt (pad 4 (nat Y) @ (CHR ''-'' # pad 2 (nat M) @ (CHR ''-'' # pad 2 (nat D) @ r)))
                 (pad 4 (nat y) @ (CHR ''-'' # pad 2 (nat m) @ (CHR ''-'' # pad 2 (Suc 0))))
        = (Y < y \<or> (Y = y \<and> M < m))"
    by (simp add: text_lt_append length_pad Yy del: pad.simps)
  then show ?thesis by (simp add: isoformat_ymd_def del: pad.simps)
qed

lemma days_in_month_le: "days_in_month y m \<le> 31"
  by (simp add: days_in_month_def)

lemma stamp_lt_first:
  assumes "valid_datetime t" "1 \<le> y" "y \<le> 9999" "1 \<le> m" "m \<le> 12"
  shows "text_lt (isoformat_datetime t) (isoformat_ymd y m 1) =
         (dt_year t < y \<or> (dt_year t = y \<and> dt_month t < m))"
proof -
  have "dt_day t \<le> 31" using assms(1) days_in_month_le [of "dt_year t" "dt_month t"]
    by (simp add: valid_datetime_def)
  then show ?thesis using assms unfolding isoformat_datetime_def valid_datetime_def
    by (intro ymd_lt) simp_all
qed

lemma count_zip:
  "map f xs = map g ts \<Longrightarrow> (\<And>k t. t \<in> set ts \<Longrightarrow> f k = g t \<Longrightarrow> P k = Q k t) \<Longrightarrow>
   length (filter P xs) = length (filter (\<lambda>(k, t). Q k t) (zip xs ts))"
proof (induction xs arbitrary: ts)
  case Nil
  then show ?case by simp
next
  case (Cons x xs)
  then obtain t ts' where ts: "ts = t # ts'" by (cases ts) auto
  with Cons.prems(1) have e: "f x = g t" "map f xs = map g ts'" by simp_all
  have "P x = Q x t" using Cons.prems(2) [of t x] e ts by simp
  moreover have "length (filter P xs) = length (filter (\<lambda>(k, t). Q k t) (zip xs ts'))"
    using e(2) Cons.prems(2) ts by (intro Cons.IH) simp_all
  ultimately show ?case using ts by simp
qed

subsection \<open>The period of \<open>clicks_this_period\<close>\<close>

lemma in_period_stamp:
  assumes "valid_datetime t" "1 \<le> year" "year \<le> 9999" "1 \<le> month" "month \<le> 12"
    and "\<not> (year = 9999 \<and> month = 12)" "click_ts k = isoformat_datetime t"
  shows "in_period cid (isoformat_ymd year month 1)
           (if month = 12 then isoformat_ymd (year + 1) 1 1 else isoformat_ymd year (month + 1) 1) k =
         (click_category_id k = cid \<and> dt_year t = year \<and> dt_month t = month)"
proof -
  have lo: "text_lt (click_ts k) (isoformat_ymd year month 1) =
        (dt_year t < year \<or> (dt_year t = year \<and> dt_month t < month))"
    using assms by (simp add: stamp_lt_first)
  have m1: "1 \<le> dt_month t" "dt_month t \<le> 12" using assms(1) by (simp_all add: valid_datetime_def)
  show ?thesis
  proof (cases "month = 12")
    case True
    then have "text_lt (click_ts k) (isoformat_ymd (year + 1) 1 1) =
        (dt_year t < year + 1 \<or> (dt_year t = year + 1 \<and> dt_month t < 1))"
      using assms by (simp add: stamp_lt_first)
    with lo True m1 show ?thesis by (auto simp: in_period_def text_ge_def)
  next
    case False
    then have "text_lt (click_ts k) (isoformat_ymd year (month + 1) 1) =
        (dt_year t < year \<or> (dt_year t = year \<and> dt_month t < month + 1))"
      using assms by (simp add: stamp_lt_first)
    with lo False m1 show ?thesis by (auto simp: in_period_def text_ge_def)
  qed
qed

lemma clicks_this_period_given:
  assumes "1 \<le> year" "year \<le> 9999" "1 \<le> month" "month \<le> 12" "\<not> (year = 9999 \<and> month = 12)"
  shows "clicks_this_period e s cid (Some year) (Some month) =
         Inr (int (length (filter
           (in_period cid (isoformat_ymd year month 1)
              (if month = 12 then isoformat_ymd (year + 1) 1 1 else isoformat_ymd year (month + 1) 1))
           (clicks s))))"
  using assms
  by (auto simp: clicks_this_period_def mk_date_def days_in_month_def isoformat_date_def get_conn_def)

text \<open>
  C1. For a year and month that \<open>date\<close> accepts together with the following month,
  \<open>clicks_this_period\<close> counts the clicks of the category whose timestamp text is
  not below the ISO text of the first day of the month and is below the ISO text of the
  first day of the next month, which for month 12 is 1 January of the year after. On
  timestamps written by \<open>isoformat\<close> this is the calendar month itself: a click is
  counted exactly when its year and month are the ones asked for, so 2023-12-31T23:59:59
  counts for (2023, 12) and not for (2024, 1), and 2024-01-01T00:00:00 counts for
  (2024, 1).
\<close>

theorem clicks_this_period_half_open:
  assumes "1 \<le> year" "year \<le> 9999" "1 \<le> month" "month \<le> 12" "\<not> (year = 9999 \<and> month = 12)"
    and "map click_ts (clicks s) = map isoformat_datetime ts" "\<forall>t \<in> set ts. valid_datetime t"
  shows "clicks_this_period e s cid (Some year) (Some month) =
           Inr (int (length (filter
             (\<lambda>k. click_category_id k = cid \<and>
                  \<not> text_lt (click_ts k) (isoformat_ymd year month 1) \<and>
                  text_lt (click_ts k)
                    (if month = 12 then isoformat_ymd (year + 1) 1 1
                     else isoformat_ymd year (month + 1) 1))
             (clicks s)))) \<and>
         clicks_this_period e s cid (Some year) (Some month) =
           Inr (int (length (filter
             (\<lambda>(k, t). click_category_id k = cid \<and> dt_year t = year \<and> dt_month t = month)
             (zip (clicks s) ts))))"
proof -
  let ?P = "in_period cid (isoformat_ymd year month 1)
              (if month = 12 then isoformat_ymd (year + 1) 1 1 else isoformat_ymd year (month + 1) 1)"
  have g: "clicks_this_period e s cid (Some year) (Some month) =
           Inr (int (length (filter ?P (clicks s))))"
    using assms(1-5) by (rule clicks_this_period_given)
  have a: "?P = (\<lambda>k. click_category_id k = cid \<and>
                  \<not> text_lt (click_ts k) (isoformat_ymd year month 1) \<and>
                  text_lt (click_ts k)
                    (if month = 12 then isoformat_ymd (year + 1) 1 1
                     else isoformat_ymd year (month + 1) 1))"
    by (rule ext) (simp only: in_period_def text_ge_def)
  have b: "length (filter ?P (clicks s)) =
        length (filter (\<lambda>(k, t). click_category_id k = cid \<and> dt_year t = year \<and> dt_month t = month)
             (zip (clicks s) ts))"
  proof (rule count_zip [OF assms(6)])
    fix k :: click and t assume "t \<in> set ts" "click_ts k = isoformat_datetime t"
    then show "?P k = (click_category_id k = cid \<and> dt_year t = year \<and> dt_month t = month)"
      using assms by (intro in_period_stamp) auto
  qed
  show ?thesis using g a b by (simp only:)
qed

theorem clicks_this_period_half_open_witness:
  "clicks_this_period mid_january (one_click dec31) 1 (Some 2023) (Some 12) = Inr 1 \<and>
   clicks_this_period mid_january (one_click dec31) 1 (Some 2024) (Some 1) = Inr 0 \<and>
   clicks_this_period mid_january (one_click jan1) 1 (Some 2024) (Some 1) = Inr 1 \<and>
   clicks_this_period mid_january (one_click jan1) 1 (Some 2023) (Some 12) = Inr 0"
proof -
  have v: "\<forall>t \<in> set [dec31]. valid_datetime t" "\<forall>t \<in> set [jan1]. valid_datetime t"
    by (simp_all add: valid_datetime_def dec31_def jan1_def days_in_month_def)
  have m: "map click_ts (clicks (one_click dec31)) = map isoformat_datetime [dec31]"
     "map click_ts (clicks (one_click jan1)) = map isoformat_datetime [jan1]"
    by (simp_all add: one_click_def)
  have "clicks_this_period mid_january (one_click dec31) 1 (Some 2023) (Some 12) = Inr 1"
    using clicks_this_period_half_open [of 2023 12 "one_click dec31" "[dec31]" mid_january 1, THEN conjunct2] m v
    by (simp add: one_click_def dec31_def)
  moreover have "clicks_this_period mid_january (one_click dec31) 1 (Some 2024) (Some 1) = Inr 0"
    using clicks_this_period_half_open [of 2024 1 "one_click dec31" "[dec31]" mid_january 1, THEN conjunct2] m v
    by (simp add: one_click_def dec31_def)
  moreover have "clicks_this_period mid_january (one_click jan1) 1 (Some 2024) (Some 1) = Inr 1"
    using clicks_this_period_half_open [of 2024 1 "one_click jan1" "[jan1]" mid_january 1, THEN conjunct2] m v
    by (simp add: one_click_def jan1_def)
  moreover have "clicks_this_period mid_january (one_click jan1) 1 (Some 2023) (Some 12) = Inr 0"
    using clicks_this_period_half_open [of 2023 12 "one_click jan1" "[jan1]" mid_january 1, THEN conjunct2] m v
    by (simp add: one_click_def jan1_def)
  ultimately show ?thesis by simp
qed

subsection \<open>Evaluating the ISO format\<close>

lemma digit_chars:
  "digit 0 = CHR ''0''" "digit 1 = CHR ''1''" "digit 2 = CHR ''2''" "digit 3 = CHR ''3''"
  "digit 4 = CHR ''4''" "digit 5 = CHR ''5''" "digit 6 = CHR ''6''" "digit 7 = CHR ''7''"
  "digit 8 = CHR ''8''" "digit 9 = CHR ''9''" "digit (Suc 0) = CHR ''1''"
  by code_simp+

lemma pad2: "pad 2 n = [digit (n div 10 mod 10), digit (n mod 10)]"
  by (simp add: numeral_2_eq_2)

lemma pad4: "pad 4 n = pad 2 (n div 10 div 10) @ pad 2 n"
proof -
  have f: "(4::nat) = Suc (Suc (Suc (Suc 0)))" and t: "(2::nat) = Suc (Suc 0)" by simp_all
  show ?thesis unfolding f t by simp
qed

lemma pad6: "pad 6 n = pad 2 (n div 10 div 10 div 10 div 10) @ pad 2 (n div 10 div 10) @ pad 2 n"
proof -
  have f: "(6::nat) = Suc (Suc (Suc (Suc (Suc (Suc 0)))))" and t: "(2::nat) = Suc (Suc 0)" by simp_all
  show ?thesis unfolding f t by simp
qed

lemmas iso_eval = isoformat_datetime_def isoformat_date_def isoformat_ymd_def pad6 pad4 pad2 digit_chars

subsection \<open>Reset and seed\<close>

text \<open>
  C9. From any state, deleting the database file, running \<open>init_db\<close> and then
  \<open>add_default_categories\<close> raises nothing and leaves exactly the three starter
  categories, numbered 1 to 3 in the order of the source, and no click.
\<close>

theorem reset_then_seed:
  "add_default_categories (reset_all s) =
     (None, \<lparr>categories =
      [\<lparr>cat_id = 1, cat_name = ''Burgers'', cat_items_per_period = 3, cat_unit_value = 16,
        cat_unit_label = ''burger''\<rparr>,
       \<lparr>cat_id = 2, cat_name = ''Equipement'', cat_items_per_period = 3, cat_unit_value = 60,
        cat_unit_label = ''equip''\<rparr>,
       \<lparr>cat_id = 3, cat_name = ''Bonbons'', cat_items_per_period = 20, cat_unit_value = 0.7,
        cat_unit_label = ''bonbon''\<rparr>],
     clicks = []\<rparr>)"
  by (simp add: add_default_categories_def reset_all_def init_db_def defaults_def get_conn_def
      commit_def insert_category_def)

subsection \<open>Clicks on a category that does not exist\<close>

text \<open>
  C2. The claim is that \<open>record_click\<close> on an id that is not a category's fails and
  writes nothing. The schema declares the foreign key, the connection never enables its
  enforcement: on the seeded store, whose ids are 1 to 3, \<open>record_click(999, "faim", 1.0)\<close>
  raises nothing and persists the click.
\<close>

theorem record_click_unknown_category:
  "999 \<notin> set (map cat_id (categories seeded)) \<and>
   record_click late_january seeded 999 ''faim'' 1 =
     (None, seeded\<lparr>clicks := [\<lparr>click_id = 1, click_category_id = 999,
        click_ts = ''2024-01-31T23:30:00'', click_reason = ''faim'', click_amount = 1\<rparr>]\<rparr>)"
  by (simp add: record_click_def insert_click_def get_conn_def commit_def seeded_def
      late_january_def iso_eval)

subsection \<open>The default period\<close>

text \<open>
  C5. The claim is that without a year and month \<open>clicks_this_period\<close> counts the
  month of the current UTC date. It takes them from \<open>date.today()\<close>, the local date,
  while \<open>record_click\<close> stamps clicks with \<open>datetime.utcnow()\<close>. One hour
  east of UTC, at 23:30 UTC on 31 January 2024, a click made this instant is not in the
  default period (0 clicks), though it is in the period of the UTC year and month (1 click).
\<close>

theorem clicks_this_period_default_is_local:
  "clicks_this_period late_january (snd (record_click late_january seeded 1 ''faim'' 1)) 1 None None = Inr 0 \<and>
   clicks_this_period late_january (snd (record_click late_january seeded 1 ''faim'' 1)) 1
      (Some (dt_year (utcnow late_january))) (Some (dt_month (utcnow late_january))) = Inr 1"
  by (simp add: clicks_this_period_def record_click_def insert_click_def get_conn_def commit_def
      seeded_def late_january_def iso_eval mk_date_def days_in_month_def in_period_def text_ge_def)

subsection \<open>Duplicate names\<close>

text \<open>
  C4. When a category with the given name exists (names compared character by
  character), \<open>create_category\<close> raises the integrity error of the UNIQUE constraint
  and the persisted store, hence \<open>list_categories\<close>, is what it was.
\<close>

theorem create_category_duplicate:
  "name \<in> set (map cat_name (categories s)) \<Longrightarrow>
   create_category s name items_per_period unit_value unit_label = (Some IntegrityError, s) \<and>
   list_categories (snd (create_category s name items_per_period unit_value unit_label)) =
     list_categories s"
  by (simp add: create_category_def insert_category_def get_conn_def)

theorem create_category_duplicate_witness:
  "''Burgers'' \<in> set (map cat_name (categories seeded)) \<and>
   create_category seeded ''Burgers'' 5 2 ''item'' = (Some IntegrityError, seeded) \<and>
   list_categories (snd (create_category seeded ''Burgers'' 5 2 ''item'')) = list_categories seeded"
proof -
  have h: "''Burgers'' \<in> set (map cat_name (categories seeded))" by (simp add: seeded_def)
  show ?thesis using h create_category_duplicate [OF h, of 5 2 "''item''"] by simp
qed

subsection \<open>Validation of the inputs\<close>

lemma is_double_of_int: "\<bar>m\<bar> < 2 ^ 53 \<Longrightarrow> is_double (of_int m)"
  unfolding is_double_def by (intro exI [of _ m] exI [of _ 0]) simp

lemma strip_blank_name: "strip blank_name = []"
  by (simp add: blank_name_def strip_def lstrip_def rstrip_def ws_len_def whitespace_def)

lemma strip_padded_pizza: "strip padded_pizza = ''Pizza''"
  by (simp add: padded_pizza_def strip_def lstrip_def rstrip_def ws_len_def whitespace_def)

text \<open>
  C3, as stated: no input is rejected. \<open>create_category\<close> with an empty name, 0 items
  per period and unit value -1 persists that row, and \<open>record_click\<close> with amount -2
  persists that click; neither raises.
\<close>

theorem create_category_unvalidated_counterexample:
  "create_category seeded [] 0 (- 1) ''item'' =
     (None, seeded\<lparr>categories := categories seeded @
        [\<lparr>cat_id = 4, cat_name = [], cat_items_per_period = 0, cat_unit_value = - 1,
          cat_unit_label = ''item''\<rparr>]\<rparr>) \<and>
   record_click late_january seeded 1 ''faim'' (- 2) =
     (None, seeded\<lparr>clicks := [\<lparr>click_id = 1, click_category_id = 1,
        click_ts = ''2024-01-31T23:30:00'', click_reason = ''faim'', click_amount = - 2\<rparr>]\<rparr>)"
  by (simp add: create_category_def insert_category_def record_click_def insert_click_def
      get_conn_def commit_def seeded_def late_january_def iso_eval)

text \<open>
  C3, amended. The store functions do not validate. \<open>create_category\<close>, given a name
  that no category has (the empty one too), items per period within the 64 bits of an
  SQLite integer (zero and negative ones too) and a unit value that is a finite float
  (negative ones too), raises nothing and persists that very row under the next id.
  \<open>record_click\<close> on the id of an existing category, with an amount that is a finite
  float of magnitude below \<open>2^63\<close> (zero and negative ones too), raises nothing and
  persists the click. The next id is one more than the largest present, the ids of the
  table lying below \<open>2^63 - 1\<close>. In the form, a name that is empty after stripping
  makes the handler call nothing, raise nothing and leave the store as it was; with any
  other name the handler does what \<open>create_category\<close> does on the stripped name, the
  numbers as entered and the stripped unit label, "item" when that is blank.
\<close>

theorem store_does_not_validate:
  "(name \<notin> set (map cat_name (categories s)) \<and>
    (\<forall>i \<in> set (map cat_id (categories s)). i < 2 ^ 63 - 1) \<and>
    - (2 ^ 63) \<le> items_per_period \<and> items_per_period < 2 ^ 63 \<and> is_double unit_value \<longrightarrow>
      create_category s name items_per_period unit_value unit_label =
        (None, s\<lparr>categories := categories s @
           [\<lparr>cat_id = next_rowid (map cat_id (categories s)), cat_name = name,
             cat_items_per_period = items_per_period, cat_unit_value = unit_value,
             cat_unit_label = unit_label\<rparr>]\<rparr>)) \<and>
   (category_id \<in> set (map cat_id (categories s)) \<and>
    - (2 ^ 63) \<le> category_id \<and> category_id < 2 ^ 63 \<and>
    (\<forall>i \<in> set (map click_id (clicks s)). i < 2 ^ 63 - 1) \<and>
    is_double amount \<and> \<bar>amount\<bar> < 2 ^ 63 \<longrightarrow>
      record_click e s category_id reason amount =
        (None, s\<lparr>clicks := clicks s @
           [\<lparr>click_id = next_rowid (map click_id (clicks s)), click_category_id = category_id,
             click_ts = isoformat_datetime (utcnow e), click_reason = reason,
             click_amount = amount\<rparr>]\<rparr>)) \<and>
   (strip form_name = [] \<longrightarrow>
      submit_new_cat s form_name form_items form_value form_label = (None, s)) \<and>
   (strip form_name \<noteq> [] \<longrightarrow>
      submit_new_cat s form_name form_items form_value form_label =
        create_category s (strip form_name) form_items form_value
          (if strip form_label = [] then ''item'' else strip form_label))"
  by (simp add: submit_new_cat_def create_category_def insert_category_def record_click_def
      insert_click_def get_conn_def commit_def)

theorem store_does_not_validate_witness:
  "''Pizza'' \<notin> set (map cat_name (categories seeded)) \<and>
   create_category seeded ''Pizza'' 0 (- 1) ''item'' =
     (None, seeded\<lparr>categories := categories seeded @
        [\<lparr>cat_id = 4, cat_name = ''Pizza'', cat_items_per_period = 0, cat_unit_value = - 1,
          cat_unit_label = ''item''\<rparr>]\<rparr>) \<and>
   1 \<in> set (map cat_id (categories seeded)) \<and>
   record_click late_january seeded 1 ''faim'' (- 2) =
     (None, seeded\<lparr>clicks := [\<lparr>click_id = 1, click_category_id = 1,
        click_ts = ''2024-01-31T23:30:00'', click_reason = ''faim'', click_amount = - 2\<rparr>]\<rparr>) \<and>
   strip blank_name = [] \<and>
   submit_new_cat seeded blank_name 3 10 ''item'' = (None, seeded) \<and>
   strip padded_pizza = ''Pizza'' \<and>
   submit_new_cat seeded padded_pizza 3 10 blank_name = create_category seeded ''Pizza'' 3 10 ''item''"
proof -
  have a: "strip blank_name = []" by (rule strip_blank_name)
  have b: "strip padded_pizza = ''Pizza''" by (rule strip_padded_pizza)
  have c: "''Pizza'' \<notin> set (map cat_name (categories seeded))" by (simp add: seeded_def)
  have d: "1 \<in> set (map cat_id (categories seeded))" by (simp add: seeded_def)
  have i: "\<forall>i \<in> set (map cat_id (categories seeded)). i < 2 ^ 63 - 1"
    by (simp add: seeded_def)
  have n: "next_rowid (map cat_id (categories seeded)) = 4" by (simp add: seeded_def)
  have k: "clicks seeded = []" by (simp add: seeded_def)
  have f: "is_double (- 1)" "is_double (- 2)"
    using is_double_of_int [of "- 1"] is_double_of_int [of "- 2"] by simp_all
  have t: "isoformat_datetime (utcnow late_january) = ''2024-01-31T23:30:00''"
    by (simp add: late_january_def iso_eval)
  have 1: "create_category seeded ''Pizza'' 0 (- 1) ''item'' =
     (None, seeded\<lparr>categories := categories seeded @
        [\<lparr>cat_id = 4, cat_name = ''Pizza'', cat_items_per_period = 0, cat_unit_value = - 1,
          cat_unit_label = ''item''\<rparr>]\<rparr>)"
    using store_does_not_validate [where name = "''Pizza''" and s = seeded
        and items_per_period = 0 and unit_value = "- 1" and unit_label = "''item''"] c i n f
    by simp
  have 2: "record_click late_january seeded 1 ''faim'' (- 2) =
     (None, seeded\<lparr>clicks := [\<lparr>click_id = 1, click_category_id = 1,
        click_ts = ''2024-01-31T23:30:00'', click_reason = ''faim'', click_amount = - 2\<rparr>]\<rparr>)"
    using store_does_not_validate [where s = seeded and category_id = 1 and e = late_january
        and reason = "''faim''" and amount = "- 2"] d t k f
    by simp
  have 3: "submit_new_cat seeded blank_name 3 10 ''item'' = (None, seeded)"
    using store_does_not_validate [where s = seeded and form_name = blank_name
        and form_items = 3 and form_value = 10 and form_label = "''item''"] a
    by simp
  have 4: "submit_new_cat seeded padded_pizza 3 10 blank_name =
     create_category seeded ''Pizza'' 3 10 ''item''"
    using store_does_not_validate [where s = seeded and form_name = padded_pizza
        and form_items = 3 and form_value = 10 and form_label = blank_name] a b
    by simp
  show ?thesis using a b c d 1 2 3 4 by simp
qed

subsection \<open>Undoing the last click\<close>

lemma fold_max_Max: "fold max xs (x::int) = Max (set (x # xs))"
  by (simp only: Max.set_eq_fold)

lemma fold_max_ge: "y \<in> set (x # xs) \<Longrightarrow> y \<le> fold max xs (x::int)"
  unfolding fold_max_Max by (rule Max_ge) simp_all

lemma fold_max_in: "fold max xs (x::int) \<in> set (x # xs)"
  unfolding fold_max_Max by (rule Max_in) simp_all

lemma next_rowid_fresh: "next_rowid ids \<notin> set ids"
proof (cases ids)
  case Nil
  then show ?thesis by simp
next
  case (Cons x xs)
  have "\<forall>y \<in> set (x # xs). y < fold max xs x + 1"
    using fold_max_ge [of _ x xs] by force
  then show ?thesis using Cons by auto
qed

lemma last_click_id_Some:
  "cs \<noteq> [] \<Longrightarrow> \<exists>c \<in> set cs. last_click_id cs = Some (click_id c) \<and> (\<forall>k \<in> set cs. click_id k \<le> click_id c)"
proof (cases cs)
  case Nil
  assume "cs \<noteq> []"
  with Nil show ?thesis by simp
next
  case (Cons c cs')
  let ?m = "fold max (map click_id cs') (click_id c)"
  have "?m \<in> set (map click_id cs)" using fold_max_in [of "map click_id cs'" "click_id c"] Cons by simp
  then obtain k where k: "k \<in> set cs" "click_id k = ?m" by auto
  have "\<forall>j \<in> set cs. click_id j \<le> ?m"
    using fold_max_ge [of _ "click_id c" "map click_id cs'"] Cons by auto
  moreover have "last_click_id cs = Some (click_id k)" using k(2) Cons by simp
  ultimately show ?thesis using k by (intro bexI [of _ k]) simp_all
qed

lemma filter_id_remove1:
  "distinct (map click_id cs) \<Longrightarrow> c \<in> set cs \<Longrightarrow>
   filter (\<lambda>k. click_id k \<noteq> click_id c) cs = remove1 c cs"
proof (induction cs)
  case Nil
  then show ?case by simp
next
  case (Cons a cs)
  show ?case
  proof (cases "a = c")
    case True
    have "click_id c \<notin> click_id ` set cs" using Cons.prems(1) True by simp
    then have "\<forall>k \<in> set cs. click_id k \<noteq> click_id c" by (metis imageI)
    then have "filter (\<lambda>k. click_id k \<noteq> click_id c) cs = cs" by (simp add: filter_id_conv)
    with True show ?thesis by simp
  next
    case False
    then have "c \<in> set cs" using Cons.prems(2) by simp
    moreover have "click_id a \<noteq> click_id c" using Cons.prems(1) \<open>c \<in> set cs\<close> by auto
    ultimately show ?thesis using Cons False by simp
  qed
qed

text \<open>
  C6. On a store with clicks (ids distinct, as the primary key keeps them),
  \<open>undo_last_click\<close> raises nothing and removes one row: a click whose id is the
  largest of all clicks, whatever their categories; that row is gone afterwards, every
  other row stays, and the table is one row shorter. On a store without clicks it raises
  nothing and changes nothing.
\<close>

theorem undo_last_click_removes_highest:
  "(clicks s = [] \<longrightarrow> undo_last_click s = (None, s)) \<and>
   (clicks s \<noteq> [] \<and> store_ok s \<longrightarrow>
      (\<exists>c \<in> set (clicks s).
         (\<forall>k \<in> set (clicks s). click_id k \<le> click_id c) \<and>
         undo_last_click s = (None, s\<lparr>clicks := remove1 c (clicks s)\<rparr>) \<and>
         c \<notin> set (remove1 c (clicks s)) \<and>
         length (remove1 c (clicks s)) + 1 = length (clicks s)))"
proof (intro conjI impI)
  assume "clicks s = []"
  then show "undo_last_click s = (None, s)"
    by (simp add: undo_last_click_def get_conn_def commit_def)
next
  assume a: "clicks s \<noteq> [] \<and> store_ok s"
  then have d: "distinct (map click_id (clicks s))" by (simp add: store_ok_def)
  then have d': "distinct (clicks s)" by (simp add: distinct_map)
  from a obtain c where c: "c \<in> set (clicks s)" "last_click_id (clicks s) = Some (click_id c)"
      "\<forall>k \<in> set (clicks s). click_id k \<le> click_id c"
    using last_click_id_Some [of "clicks s"] by blast
  have "undo_last_click s = (None, s\<lparr>clicks := remove1 c (clicks s)\<rparr>)"
    using c(2) filter_id_remove1 [OF d c(1)]
    by (simp add: undo_last_click_def get_conn_def commit_def)
  moreover have "c \<notin> set (remove1 c (clicks s))" using d' by simp
  moreover have "length (remove1 c (clicks s)) + 1 = length (clicks s)"
    using c(1) by (simp add: length_remove1) (cases "clicks s", auto)
  ultimately show "\<exists>c \<in> set (clicks s).
         (\<forall>k \<in> set (clicks s). click_id k \<le> click_id c) \<and>
         undo_last_click s = (None, s\<lparr>clicks := remove1 c (clicks s)\<rparr>) \<and>
         c \<notin> set (remove1 c (clicks s)) \<and>
         length (remove1 c (clicks s)) + 1 = length (clicks s)"
    using c(1) c(3) by blast
qed

theorem undo_last_click_removes_highest_witness:
  "clicks two_clicks \<noteq> [] \<and> store_ok two_clicks \<and>
   undo_last_click two_clicks =
     (None, seeded\<lparr>clicks :=
        [\<lparr>click_id = 1, click_category_id = 3, click_ts = ''2024-01-15T12:00:00.250000'',
          click_reason = ''envie'', click_amount = 1\<rparr>]\<rparr>) \<and>
   clicks seeded = [] \<and> undo_last_click seeded = (None, seeded)"
proof -
  have h: "clicks two_clicks \<noteq> [] \<and> store_ok two_clicks"
    by (simp add: two_clicks_def seeded_def store_ok_def)
  have e: "clicks seeded = []" by (simp add: seeded_def)
  from undo_last_click_removes_highest [of two_clicks] h
  obtain c where c: "c \<in> set (clicks two_clicks)"
      "\<forall>k \<in> set (clicks two_clicks). click_id k \<le> click_id c"
      "undo_last_click two_clicks = (None, two_clicks\<lparr>clicks := remove1 c (clicks two_clicks)\<rparr>)"
    by blast
  from c(1) c(2) have "click_id c = 2" by (auto simp: two_clicks_def)
  with c(1) have "remove1 c (clicks two_clicks) =
        [\<lparr>click_id = 1, click_category_id = 3, click_ts = ''2024-01-15T12:00:00.250000'',
          click_reason = ''envie'', click_amount = 1\<rparr>]"
    by (auto simp: two_clicks_def)
  with c(3) have 1: "undo_last_click two_clicks =
     (None, seeded\<lparr>clicks :=
        [\<lparr>click_id = 1, click_category_id = 3, click_ts = ''2024-01-15T12:00:00.250000'',
          click_reason = ''envie'', click_amount = 1\<rparr>]\<rparr>)"
    by (simp add: two_clicks_def)
  have 2: "undo_last_click seeded = (None, seeded)"
    using undo_last_click_removes_highest [of seeded] e by simp
  show ?thesis using h e 1 2 by simp
qed

subsection \<open>Seeding the starter categories\<close>

lemma insert_defaults_total:
  "\<exists>c'. insert_defaults c ds = Inr c'"
proof (induction ds arbitrary: c)
  case Nil
  then show ?case by simp
next
  case (Cons d ds)
  obtain name ip uv ul where d: "d = (name, ip, uv, ul)" by (cases d) auto
  show ?case using Cons.IH unfolding d
    by (simp add: insert_category_def Let_def)
qed

lemma insert_defaults_present:
  "\<forall>d \<in> set ds. fst d \<in> set (map cat_name (categories (work c))) \<Longrightarrow> insert_defaults c ds = Inr c"
proof (induction ds)
  case Nil
  then show ?case by simp
next
  case (Cons d ds)
  obtain name ip uv ul where d: "d = (name, ip, uv, ul)" by (cases d) auto
  show ?case using Cons unfolding d by (simp add: insert_category_def Let_def)
qed

lemma insert_defaults_frame:
  "insert_defaults c ds = Inr c' \<Longrightarrow>
   foreign_keys c' = foreign_keys c \<and> clicks (work c') = clicks (work c)"
proof (induction ds arbitrary: c)
  case Nil
  then show ?case by auto
next
  case (Cons d ds)
  obtain name ip uv ul where d: "d = (name, ip, uv, ul)" by (cases d) auto
  show ?case
  proof (cases "name \<in> set (map cat_name (categories (work c)))")
    case True
    then have "insert_defaults c ds = Inr c'" using Cons.prems d
      by (simp add: insert_category_def Let_def)
    then show ?thesis by (rule Cons.IH)
  next
    case False
    let ?c1 = "c\<lparr>work := (work c)\<lparr>categories := categories (work c) @
       [\<lparr>cat_id = next_rowid (map cat_id (categories (work c))), cat_name = name,
               cat_items_per_period = ip, cat_unit_value = uv, cat_unit_label = ul\<rparr>]\<rparr>\<rparr>"
    have "insert_defaults ?c1 ds = Inr c'" using Cons.prems d False
      by (simp add: insert_category_def Let_def)
    from Cons.IH [OF this] show ?thesis by simp
  qed
qed

lemma insert_defaults_appends:
  "insert_defaults c ds = Inr c' \<Longrightarrow>
   \<exists>new. categories (work c') = categories (work c) @ new \<and>
         (\<forall>r \<in> set new. cat_name r \<notin> set (map cat_name (categories (work c))))"
proof (induction ds arbitrary: c)
  case Nil
  then show ?case by auto
next
  case (Cons d ds)
  obtain name ip uv ul where d: "d = (name, ip, uv, ul)" by (cases d) auto
  show ?case
  proof (cases "name \<in> set (map cat_name (categories (work c)))")
    case True
    then have "insert_defaults c ds = Inr c'" using Cons.prems d
      by (simp add: insert_category_def Let_def)
    then show ?thesis by (rule Cons.IH)
  next
    case False
    let ?row = "\<lparr>cat_id = next_rowid (map cat_id (categories (work c))), cat_name = name,
               cat_items_per_period = ip, cat_unit_value = uv, cat_unit_label = ul\<rparr>"
    let ?c1 = "c\<lparr>work := (work c)\<lparr>categories := categories (work c) @ [?row]\<rparr>\<rparr>"
    have w: "categories (work ?c1) = categories (work c) @ [?row]" by simp
    have "insert_defaults ?c1 ds = Inr c'" using Cons.prems d False
      by (simp add: insert_category_def Let_def)
    from Cons.IH [OF this] obtain new where
      n: "categories (work c') = categories (work ?c1) @ new"
         "\<forall>r \<in> set new. cat_name r \<notin> set (map cat_name (categories (work ?c1)))"
      by blast
    have 1: "categories (work c') = categories (work c) @ (?row # new)"
      using n(1) unfolding w by simp
    have 2: "\<forall>r \<in> set (?row # new). cat_name r \<notin> set (map cat_name (categories (work c)))"
      using n(2) False unfolding w by simp
    from 1 2 show ?thesis by blast
  qed
qed

lemma insert_defaults_names:
  "insert_defaults c ds = Inr c' \<Longrightarrow>
   \<forall>d \<in> set ds. fst d \<in> set (map cat_name (categories (work c')))"
proof (induction ds arbitrary: c)
  case Nil
  then show ?case by auto
next
  case (Cons d ds)
  obtain name ip uv ul where d: "d = (name, ip, uv, ul)" by (cases d) auto
  show ?case
  proof (cases "name \<in> set (map cat_name (categories (work c)))")
    case True
    then have r: "insert_defaults c ds = Inr c'" using Cons.prems d
      by (simp add: insert_category_def Let_def)
    obtain new where "categories (work c') = categories (work c) @ new"
      using insert_defaults_appends [OF r] by blast
    then have "name \<in> set (map cat_name (categories (work c')))" using True by simp
    then show ?thesis using Cons.IH [OF r] d by simp
  next
    case False
    let ?row = "\<lparr>cat_id = next_rowid (map cat_id (categories (work c))), cat_name = name,
               cat_items_per_period = ip, cat_unit_value = uv, cat_unit_label = ul\<rparr>"
    let ?c1 = "c\<lparr>work := (work c)\<lparr>categories := categories (work c) @ [?row]\<rparr>\<rparr>"
    have w: "categories (work ?c1) = categories (work c) @ [?row]" by simp
    have r: "insert_defaults ?c1 ds = Inr c'" using Cons.prems d False
      by (simp add: insert_category_def Let_def)
    obtain new where "categories (work c') = categories (work ?c1) @ new"
      using insert_defaults_appends [OF r] by blast
    then have "name \<in> set (map cat_name (categories (work c')))" unfolding w by simp
    then show ?thesis using Cons.IH [OF r] d by simp
  qed
qed

lemma get_conn_work: "foreign_keys c = False \<Longrightarrow> get_conn (work c) = c"
  by (simp add: get_conn_def)

text \<open>
  C7. \<open>add_default_categories\<close> never raises, and running it on its own result
  changes nothing: no row is added and \<open>list_categories\<close> has the same length. From
  any store it keeps every click and every existing category row in place and only
  appends rows whose names were not there, so an insertion whose name is present is
  passed over; when all three names are present the store is returned as it was.
\<close>

theorem add_default_categories_idempotent:
  "fst (add_default_categories s) = None \<and>
   add_default_categories (snd (add_default_categories s)) = (None, snd (add_default_categories s)) \<and>
   length (list_categories (snd (add_default_categories (snd (add_default_categories s))))) =
     length (list_categories (snd (add_default_categories s))) \<and>
   clicks (snd (add_default_categories s)) = clicks s \<and>
   (\<exists>new. categories (snd (add_default_categories s)) = categories s @ new \<and>
      (\<forall>r \<in> set new. cat_name r \<notin> set (map cat_name (categories s)))) \<and>
   ((\<forall>d \<in> set defaults. fst d \<in> set (map cat_name (categories s))) \<longrightarrow>
      add_default_categories s = (None, s))"
proof -
  obtain c where c: "insert_defaults (get_conn s) defaults = Inr c"
    using insert_defaults_total by blast
  then have a: "add_default_categories s = (None, work c)"
    by (simp add: add_default_categories_def commit_def)
  have fk: "foreign_keys c = False" and ck: "clicks (work c) = clicks s"
    using insert_defaults_frame [OF c] by (simp_all add: get_conn_def)
  have g: "get_conn (work c) = c" using fk by (rule get_conn_work)
  have "\<forall>d \<in> set defaults. fst d \<in> set (map cat_name (categories (work c)))"
    using c by (rule insert_defaults_names)
  then have "insert_defaults c defaults = Inr c" by (rule insert_defaults_present)
  then have b: "add_default_categories (work c) = (None, work c)"
    by (simp add: add_default_categories_def commit_def g)
  have e: "\<exists>new. categories (work c) = categories s @ new \<and>
      (\<forall>r \<in> set new. cat_name r \<notin> set (map cat_name (categories s)))"
    using insert_defaults_appends [OF c] by (simp add: get_conn_def)
  have f: "(\<forall>d \<in> set defaults. fst d \<in> set (map cat_name (categories s))) \<longrightarrow>
      add_default_categories s = (None, s)"
  proof
    assume "\<forall>d \<in> set defaults. fst d \<in> set (map cat_name (categories s))"
    then have "\<forall>d \<in> set defaults. fst d \<in> set (map cat_name (categories (work (get_conn s))))"
      by (simp add: get_conn_def)
    then have "insert_defaults (get_conn s) defaults = Inr (get_conn s)"
      by (rule insert_defaults_present)
    then show "add_default_categories s = (None, s)"
      by (simp add: add_default_categories_def commit_def get_conn_def)
  qed
  show ?thesis unfolding a using b ck e f a by simp
qed

theorem add_default_categories_idempotent_witness:
  "set (map fst defaults) \<subseteq> set (map cat_name (categories two_clicks)) \<and>
   add_default_categories two_clicks = (None, two_clicks) \<and>
   add_default_categories (snd (add_default_categories (reset_all two_clicks))) =
     (None, snd (add_default_categories (reset_all two_clicks)))"
proof -
  have h: "\<forall>d \<in> set defaults. fst d \<in> set (map cat_name (categories two_clicks))"
    by (simp add: defaults_def two_clicks_def seeded_def)
  have h': "set (map fst defaults) \<subseteq> set (map cat_name (categories two_clicks))"
    by (simp add: defaults_def two_clicks_def seeded_def)
  show ?thesis
    using h h' add_default_categories_idempotent [of two_clicks]
      add_default_categories_idempotent [of "reset_all two_clicks"] by simp
qed

subsection \<open>The remaining allowance\<close>

lemma clicks_at_5:
  "clicks_at t cid 5 = map (\<lambda>i. \<lparr>click_id = i, click_category_id = cid, click_ts = t,
       click_reason = ''faim'', click_amount = 1\<rparr>) [1, 2, 3, 4, 5]"
proof -
  have f: "(5::nat) = Suc (Suc (Suc (Suc (Suc 0))))" by simp
  show ?thesis unfolding f by simp
qed

lemma over_quota_used:
  "clicks_this_period mid_january over_quota 1 None None = Inr 5"
  by (simp add: clicks_this_period_def over_quota_def mid_january_def clicks_at_5 get_conn_def
      mk_date_def days_in_month_def in_period_def text_ge_def iso_eval)

lemma over_quota_summary:
  "summary mid_january over_quota (list_categories over_quota) =
     Inr [\<lparr>sum_category = ''Burgers'', sum_items_per_period = 3, sum_used = 5,
           sum_remaining = 0, sum_unit_value = 16, sum_unit_label = ''burger''\<rparr>]"
proof -
  have "list_categories over_quota = categories over_quota"
    by (simp add: list_categories_def get_conn_def over_quota_def)
  then show ?thesis using over_quota_used by (simp add: over_quota_def)
qed

text \<open>
  C8. The remaining allowance \<open>max(0, items_per_period - used)\<close> is never negative,
  and every row of the period table carries, for its category, the count that
  \<open>clicks_this_period\<close> returns as \<open>used\<close> and that expression of the category's
  quota and \<open>used\<close> as \<open>remaining\<close>. A quota of 3 with 5 clicks in the month gives
  used = 5 and remaining = 0.
\<close>

theorem summary_remaining:
  "max 0 (items_per_period - used) \<ge> (0::int) \<and>
   (summary e s cats = Inr rows \<longrightarrow>
      list_all2 (\<lambda>c r. clicks_this_period e s (cat_id c) None None = Inr (sum_used r) \<and>
                       sum_items_per_period r = cat_items_per_period c \<and>
                       sum_remaining r = max 0 (cat_items_per_period c - sum_used r) \<and>
                       0 \<le> sum_remaining r) cats rows)"
proof (intro conjI impI)
  show "max 0 (items_per_period - used) \<ge> (0::int)" by simp
next
  assume "summary e s cats = Inr rows"
  then show "list_all2 (\<lambda>c r. clicks_this_period e s (cat_id c) None None = Inr (sum_used r) \<and>
                       sum_items_per_period r = cat_items_per_period c \<and>
                       sum_remaining r = max 0 (cat_items_per_period c - sum_used r) \<and>
                       0 \<le> sum_remaining r) cats rows"
  proof (induction cats arbitrary: rows)
    case Nil
    then show ?case by simp
  next
    case (Cons c cats)
    from Cons.prems obtain used where u: "clicks_this_period e s (cat_id c) None None = Inr used"
      by (auto split: sum.splits)
    from Cons.prems u obtain rest where r: "summary e s cats = Inr rest"
      by (auto simp: Let_def split: sum.splits)
    from Cons.prems u r have rows: "rows =
      \<lparr>sum_category = cat_name c, sum_items_per_period = cat_items_per_period c,
        sum_used = used, sum_remaining = max 0 (cat_items_per_period c - used),
        sum_unit_value = cat_unit_value c, sum_unit_label = cat_unit_label c\<rparr> # rest"
      by (simp add: Let_def)
    show ?case unfolding rows using Cons.IH [OF r] u by simp
  qed
qed

theorem summary_remaining_witness:
  "summary mid_january over_quota (list_categories over_quota) =
     Inr [\<lparr>sum_category = ''Burgers'', sum_items_per_period = 3, sum_used = 5,
           sum_remaining = 0, sum_unit_value = 16, sum_unit_label = ''burger''\<rparr>] \<and>
   list_all2 (\<lambda>c r. clicks_this_period mid_january over_quota (cat_id c) None None = Inr (sum_used r) \<and>
                    sum_items_per_period r = cat_items_per_period c \<and>
                    sum_remaining r = max 0 (cat_items_per_period c - sum_used r) \<and>
                    0 \<le> sum_remaining r)
     (list_categories over_quota)
     [\<lparr>sum_category = ''Burgers'', sum_items_per_period = 3, sum_used = 5,
       sum_remaining = 0, sum_unit_value = 16, sum_unit_label = ''burger''\<rparr>]"
  using over_quota_summary
    summary_remaining [of 3 5 mid_january over_quota "list_categories over_quota"
      "[\<lparr>sum_category = ''Burgers'', sum_items_per_period = 3, sum_used = 5,
         sum_remaining = 0, sum_unit_value = 16, sum_unit_label = ''burger''\<rparr>]"]
  by blast

subsection \<open>The constraints are kept\<close>

text \<open>The empty store satisfies \<open>store_ok\<close> and every writing function keeps it, so
  it holds of every store the program can reach.\<close>

lemma store_ok_init_db: "store_ok (init_db None)"
  by (simp add: init_db_def store_ok_def)

lemma store_ok_insert_category:
  "store_ok (work c) \<Longrightarrow> insert_category c name ip uv ul = Inr c' \<Longrightarrow> store_ok (work c')"
  using next_rowid_fresh [of "map cat_id (categories (work c))"]
  by (auto simp: insert_category_def Let_def store_ok_def split: if_splits)

lemma store_ok_create_category:
  "store_ok s \<Longrightarrow> store_ok (snd (create_category s name ip uv ul))"
proof (cases "insert_category (get_conn s) name ip uv ul")
  case (Inl e)
  assume "store_ok s"
  with Inl show ?thesis by (simp add: create_category_def)
next
  case (Inr c)
  assume "store_ok s"
  then have "store_ok (work (get_conn s))" by (simp add: get_conn_def)
  then have "store_ok (work c)" using Inr by (rule store_ok_insert_category)
  with Inr show ?thesis by (simp add: create_category_def commit_def)
qed

lemma store_ok_record_click:
  "store_ok s \<Longrightarrow> store_ok (snd (record_click e s cid r a))"
  using next_rowid_fresh [of "map click_id (clicks s)"]
  by (simp add: record_click_def insert_click_def get_conn_def commit_def store_ok_def)

lemma store_ok_undo_last_click:
  "store_ok s \<Longrightarrow> store_ok (snd (undo_last_click s))"
  by (simp add: undo_last_click_def get_conn_def commit_def store_ok_def distinct_map_filter
      Let_def split: option.splits)

lemma store_ok_insert_defaults:
  "store_ok (work c) \<Longrightarrow> insert_defaults c ds = Inr c' \<Longrightarrow> store_ok (work c')"
proof (induction ds arbitrary: c)
  case Nil
  then show ?case by simp
next
  case (Cons d ds)
  obtain name ip uv ul where d: "d = (name, ip, uv, ul)" by (cases d) auto
  show ?case
  proof (cases "insert_category c name ip uv ul")
    case (Inl e)
    then have "e = IntegrityError" by (auto simp: insert_category_def Let_def split: if_splits)
    with Inl Cons.prems(2) d have "insert_defaults c ds = Inr c'" by simp
    with Cons.prems(1) show ?thesis by (rule Cons.IH)
  next
    case (Inr c1)
    with Cons.prems(2) d have r: "insert_defaults c1 ds = Inr c'" by simp
    have "store_ok (work c1)" using Cons.prems(1) Inr by (rule store_ok_insert_category)
    then show ?thesis using r by (rule Cons.IH)
  qed
qed

lemma store_ok_add_default_categories:
  "store_ok s \<Longrightarrow> store_ok (snd (add_default_categories s))"
proof -
  assume s: "store_ok s"
  obtain c where c: "insert_defaults (get_conn s) defaults = Inr c"
    using insert_defaults_total by blast
  have "store_ok (work (get_conn s))" using s by (simp add: get_conn_def)
  then have "store_ok (work c)" using c by (rule store_ok_insert_defaults)
  then show ?thesis using c by (simp add: add_default_categories_def commit_def)
qed

text \<open>The period table is produced whenever the local date has a next month that
  \<open>date\<close> can build, that is, before December 9999.\<close>

lemma summary_returns:
  assumes "1 \<le> d_year (today e)" "d_year (today e) \<le> 9999"
    and "1 \<le> d_month (today e)" "d_month (today e) \<le> 12"
    and "\<not> (d_year (today e) = 9999 \<and> d_month (today e) = 12)"
  shows "\<exists>rows. summary e s cats = Inr rows"
proof (induction cats)
  case Nil
  then show ?case by simp
next
  case (Cons c cats)
  have "\<exists>n. clicks_this_period e s (cat_id c) None None = Inr n"
    using assms by (auto simp: clicks_this_period_def mk_date_def days_in_month_def)
  with Cons show ?case by (auto simp: Let_def)
qed

end
